theory Spec2Isabelle
  imports Complex_Main "HOL-Library.Log_Nat"
begin

section \<open>JavaScript values and array operations used by the mail list\<close>

text \<open>
  A nullable string of the program: \<open>undefined\<close> (a missing property, an array read out of
  range), \<open>null\<close> (what the code stores in \<open>mail.selected\<close> to clear it) or a string.
  Strict equality \<open>===\<close> on such values is equality of the datatype: \<open>null\<close> and
  \<open>undefined\<close> are different values.
\<close>

datatype jsval = Undefined | Null | Str string

text \<open>The nullish coalescing operator \<open>a ?? b\<close>.\<close>

definition nullish :: "jsval \<Rightarrow> jsval \<Rightarrow> jsval" where
  "nullish a b = (case a of Undefined \<Rightarrow> b | Null \<Rightarrow> b | Str s \<Rightarrow> Str s)"

text \<open>\<open>xs[i]\<close> on an array of strings: \<open>undefined\<close> out of range.\<close>

definition at_index :: "string list \<Rightarrow> int \<Rightarrow> jsval" where
  "at_index xs i = (if 0 \<le> i \<and> i < int (length xs) then Str (xs ! nat i) else Undefined)"

text \<open>\<open>xs.includes(x)\<close>.\<close>

definition includes_js :: "string list \<Rightarrow> string \<Rightarrow> bool" where
  "includes_js xs x = (x \<in> set xs)"

text \<open>
  \<open>xs.indexOf(v)\<close> on an array of strings: the index of the first element strictly equal
  to \<open>v\<close>, or \<open>-1\<close>.
\<close>

fun indexOf :: "string list \<Rightarrow> jsval \<Rightarrow> int" where
  "indexOf [] v = - 1"
| "indexOf (x # xs) v =
     (if Str x = v then 0
      else (let r = indexOf xs v in if r = - 1 then - 1 else r + 1))"

text \<open>
  \<open>xs.slice(start, end)\<close> and \<open>xs.slice(start)\<close>: a negative index counts from the end,
  and both indices are clamped to the array.
\<close>

definition rel_index :: "int \<Rightarrow> int \<Rightarrow> nat" where
  "rel_index len i = nat (if i < 0 then max (len + i) 0 else min i len)"

definition slice :: "'a list \<Rightarrow> int \<Rightarrow> int \<Rightarrow> 'a list" where
  "slice xs start endIx =
     (let len = int (length xs); k = rel_index len start; final = rel_index len endIx
      in take (final - k) (drop k xs))"

definition slice_from :: "'a list \<Rightarrow> int \<Rightarrow> 'a list" where
  "slice_from xs start = slice xs start (int (length xs))"

section \<open>Data model\<close>

text \<open>
  Modelled from the spec: the type \<open>InitialThread\<close> is declared outside the sources at
  hand. These are the fields of a thread summary that the selection, read-state and
  prefetch code reads: the \<open>id\<close>, a string; the \<open>threadId\<close>, which may be absent; the
  \<open>unread\<close> flag.
\<close>

record InitialThread =
  id_m :: string
  threadId :: jsval
  unread :: bool

text \<open>
  Modelled from the spec: the selection state held by \<open>useMail\<close>, whose declaration is
  outside the sources at hand: \<open>selected\<close>, one id or absent (the code clears it with
  \<open>null\<close>), and \<open>bulkSelected\<close>, the ids in the order of selection.
\<close>

record mail_state =
  selected :: jsval
  bulkSelected :: "string list"

datatype MailSelectMode = Mass | Range | Single | SelectAllBelow

section \<open>Row clicks: \<open>MailList.handleMailClick\<close>\<close>

definition handleMailClick ::
  "MailSelectMode \<Rightarrow> InitialThread list \<Rightarrow> mail_state \<Rightarrow> InitialThread \<Rightarrow> mail_state" where
  "handleMailClick selectMode items mail message =
     (if selectMode = Mass then
        (let updatedBulkSelected =
               (if includes_js (bulkSelected mail) (id_m message)
                then filter (\<lambda>i. i \<noteq> id_m message) (bulkSelected mail)
                else bulkSelected mail @ [id_m message])
         in mail\<lparr>bulkSelected := updatedBulkSelected\<rparr>)
      else if selectMode = Range then
        (let lastSelectedItem =
               nullish (nullish (at_index (bulkSelected mail)
                                   (int (length (bulkSelected mail)) - 1))
                                (selected mail))
                       (Str (id_m message));
             mailsIndex = map id_m items;
             startIdx = indexOf mailsIndex lastSelectedItem;
             endIdx = indexOf mailsIndex (Str (id_m message))
         in if startIdx \<noteq> - 1 \<and> endIdx \<noteq> - 1
            then (let selectedRange =
                        slice mailsIndex (min startIdx endIdx) (max startIdx endIdx + 1)
                  in mail\<lparr>bulkSelected := selectedRange\<rparr>)
            else mail)
      else if selectMode = SelectAllBelow then
        (let mailsIndex = map id_m items;
             startIdx = indexOf mailsIndex (Str (id_m message))
         in if startIdx \<noteq> - 1
            then (let selectedRange = slice_from mailsIndex startIdx
                  in mail\<lparr>bulkSelected := selectedRange\<rparr>)
            else mail)
      else if selected mail = threadId message \<or> selected mail = Str (id_m message) then
        \<lparr>selected = Null, bulkSelected = []\<rparr>
      else
        mail\<lparr>selected := nullish (threadId message) (Str (id_m message)),
             bulkSelected := []\<rparr>)"

text \<open>
  The anchor of a range selection in the words of the specification: the last entry of
  \<open>bulkSelected\<close>, else the selected id, else the clicked row's own id.
\<close>

definition anchor_id :: "mail_state \<Rightarrow> InitialThread \<Rightarrow> string" where
  "anchor_id mail message =
     (if bulkSelected mail \<noteq> [] then last (bulkSelected mail)
      else (case selected mail of Str s \<Rightarrow> s | _ \<Rightarrow> id_m message))"

text \<open>
  The selection key in the words of the specification: \<open>threadId\<close> if present, else
  \<open>id\<close>.
\<close>

definition selection_key :: "InitialThread \<Rightarrow> jsval" where
  "selection_key message = nullish (threadId message) (Str (id_m message))"

text \<open>An id occurs in a sequence at index \<open>a\<close>, and nowhere before.\<close>

definition occurs_first_at :: "string list \<Rightarrow> string \<Rightarrow> nat \<Rightarrow> bool" where
  "occurs_first_at xs x a = (a < length xs \<and> xs ! a = x \<and> x \<notin> set (take a xs))"

section \<open>The view: mode flags, selection state and emitted effects\<close>

text \<open>
  What a handler does besides updating state: notices (\<open>toast\<close>), requests to the
  read-state actions, a revalidation of the thread cache (\<open>mutate()\<close>), console output.
\<close>

datatype effect =
    ToastSuccess string
  | ToastError string
  | ToastInfo string
  | MarkAsRead "string list"
  | MarkAsUnread "string list"
  | Mutate
  | ConsoleError
  | ConsoleLog string
  | LoadMore

text \<open>
  How an awaited \<open>markAsRead\<close>/\<open>markAsUnread\<close> call ends: it resolves to an object
  whose \<open>success\<close> flag the handlers read, or it rejects.
\<close>

datatype mutation_result = Resolved bool | Rejected

record view =
  mail :: mail_state
  massSelectMode :: bool
  rangeSelectMode :: bool
  selectAllBelowMode :: bool
  effects :: "effect list"

definition emit :: "effect \<Rightarrow> view \<Rightarrow> view" where
  "emit e v = v\<lparr>effects := effects v @ [e]\<rparr>"

definition setMail :: "(mail_state \<Rightarrow> mail_state) \<Rightarrow> view \<Rightarrow> view" where
  "setMail f v = v\<lparr>mail := f (mail v)\<rparr>"

text \<open>Decimal rendering of a count inside a template string.\<close>

fun string_of_nat :: "nat \<Rightarrow> string" where
  "string_of_nat n =
     (if n < 10 then [char_of (48 + n)]
      else string_of_nat (n div 10) @ [char_of (48 + n mod 10)])"

declare string_of_nat.simps [simp del]

definition selectAll :: "InitialThread list \<Rightarrow> view \<Rightarrow> view" where
  "selectAll items v =
     (if length (bulkSelected (mail v)) > 0 then
        emit (ToastSuccess ''Deselected all emails'')
          (setMail (\<lambda>prev. prev\<lparr>bulkSelected := []\<rparr>) v)
      else if length items > 0 then
        (let allIds = map id_m items
         in emit (ToastSuccess (''Selected '' @ string_of_nat (length allIds) @ '' emails''))
              (setMail (\<lambda>prev. prev\<lparr>bulkSelected := allIds\<rparr>) v))
      else emit (ToastInfo ''No emails to select'') v)"

definition resetSelectMode :: "view \<Rightarrow> view" where
  "resetSelectMode v =
     v\<lparr>massSelectMode := False, rangeSelectMode := False, selectAllBelowMode := False\<rparr>"

text \<open>
  The handlers registered with \<open>useHotKey\<close>. The loaded rows and the outcome of the
  awaited mutation are inputs; a rejected mutation ends the handler at the \<open>await\<close>.
\<close>

datatype hotkey =
    Control | Meta | Shift | Alt_Shift
  | Meta_Shift_u | Control_Shift_u | Meta_Shift_i | Control_Shift_i
  | Meta_a | Control_a | Meta_n | Control_n

definition bulk_mark ::
  "(string list \<Rightarrow> effect) \<Rightarrow> string \<Rightarrow> string \<Rightarrow> mutation_result \<Rightarrow> view \<Rightarrow> view" where
  "bulk_mark request ok_notice failure_notice res v =
     (let v1 = resetSelectMode v;
          v2 = emit (request (bulkSelected (mail v1))) v1
      in case res of
           Rejected \<Rightarrow> v2
         | Resolved success \<Rightarrow>
             if success
             then setMail (\<lambda>prev. prev\<lparr>bulkSelected := []\<rparr>) (emit (ToastSuccess ok_notice) v2)
             else emit (ToastError failure_notice) v2)"

fun useHotKey :: "hotkey \<Rightarrow> InitialThread list \<Rightarrow> mutation_result \<Rightarrow> view \<Rightarrow> view" where
  "useHotKey Control items res v = (resetSelectMode v)\<lparr>massSelectMode := True\<rparr>"
| "useHotKey Meta items res v = (resetSelectMode v)\<lparr>massSelectMode := True\<rparr>"
| "useHotKey Shift items res v = (resetSelectMode v)\<lparr>rangeSelectMode := True\<rparr>"
| "useHotKey Alt_Shift items res v = (resetSelectMode v)\<lparr>selectAllBelowMode := True\<rparr>"
| "useHotKey Meta_Shift_u items res v =
     bulk_mark MarkAsUnread ''Marked as unread'' ''Failed to mark as unread'' res v"
| "useHotKey Control_Shift_u items res v =
     bulk_mark MarkAsUnread ''Marked as unread'' ''Failed to mark as unread'' res v"
| "useHotKey Meta_Shift_i items res v =
     bulk_mark MarkAsRead ''Marked as read'' ''Failed to mark as read'' res v"
| "useHotKey Control_Shift_i items res v =
     bulk_mark MarkAsRead ''Marked as read'' ''Failed to mark as read'' res v"
| "useHotKey Meta_a items res v = selectAll items (resetSelectMode v)"
| "useHotKey Control_a items res v = selectAll items (resetSelectMode v)"
| "useHotKey Meta_n items res v = selectAll items (resetSelectMode v)"
| "useHotKey Control_n items res v = selectAll items (resetSelectMode v)"

text \<open>The window listeners: \<open>e.key\<close> is the name of the released key.\<close>

definition handleKeyUp :: "string \<Rightarrow> view \<Rightarrow> view" where
  "handleKeyUp key v =
     (let v1 = (if key = ''Control'' \<or> key = ''Meta'' then v\<lparr>massSelectMode := False\<rparr> else v);
          v2 = (if key = ''Shift'' then v1\<lparr>rangeSelectMode := False\<rparr> else v1)
      in if key = ''Alt'' then v2\<lparr>selectAllBelowMode := False\<rparr> else v2)"

definition handleBlur :: "view \<Rightarrow> view" where
  "handleBlur v =
     v\<lparr>massSelectMode := False, rangeSelectMode := False, selectAllBelowMode := False\<rparr>"

definition selectMode :: "view \<Rightarrow> MailSelectMode" where
  "selectMode v =
     (if massSelectMode v then Mass
      else if rangeSelectMode v then Range
      else if selectAllBelowMode v then SelectAllBelow
      else Single)"

section \<open>A row's click handler: \<open>Thread.handleMailClick\<close>\<close>

definition isMailSelected :: "mail_state \<Rightarrow> InitialThread \<Rightarrow> bool" where
  "isMailSelected m message = (Str (id_m message) = selected m)"

text \<open>
  \<open>!selectMode\<close>: every mode is a non-empty string, so the negation is false.
\<close>

definition not_mode :: "MailSelectMode \<Rightarrow> bool" where
  "not_mode m = False"

text \<open>
  \<open>onSelect(message)\<close> runs first; the request for the read state follows, with
  \<open>.then(() => mutate())\<close> on a resolved request and \<open>.catch(console.error)\<close> on a
  rejection of the request or of the revalidation (\<open>mutate_ok\<close> false).
\<close>

definition Thread_handleMailClick ::
  "InitialThread list \<Rightarrow> InitialThread \<Rightarrow> mutation_result \<Rightarrow> bool \<Rightarrow> view \<Rightarrow> view" where
  "Thread_handleMailClick items message res mutate_ok v =
     (let v1 = v\<lparr>mail := handleMailClick (selectMode v) items (mail v) message\<rparr>
      in if (not_mode (selectMode v) \<or> selectMode v = Single)
            \<and> \<not> isMailSelected (mail v) message \<and> unread message
         then (let v2 = emit (MarkAsRead [id_m message]) v1
               in case res of
                    Rejected \<Rightarrow> emit ConsoleError v2
                  | Resolved r \<Rightarrow>
                      if mutate_ok then emit Mutate v2
                      else emit ConsoleError (emit Mutate v2))
         else v1)"

section \<open>Events of the view and the states they reach\<close>

datatype event =
    KeyDown hotkey "InitialThread list" mutation_result
  | KeyUp string
  | Blur
  | RowClick "InitialThread list" InitialThread mutation_result bool

fun step :: "event \<Rightarrow> view \<Rightarrow> view" where
  "step (KeyDown k items res) v = useHotKey k items res v"
| "step (KeyUp key) v = handleKeyUp key v"
| "step Blur v = handleBlur v"
| "step (RowClick items message res mutate_ok) v =
     Thread_handleMailClick items message res mutate_ok v"

text \<open>
  Modelled from the spec: the initial value of the selection state, set outside the
  sources at hand, has nothing selected. The view at mount has it and the three
  \<open>useState(false)\<close> flags.
\<close>

definition initial_view :: view where
  "initial_view =
     \<lparr>mail = \<lparr>selected = Null, bulkSelected = []\<rparr>,
      massSelectMode = False, rangeSelectMode = False, selectAllBelowMode = False,
      effects = []\<rparr>"

inductive reachable :: "view \<Rightarrow> bool" where
  reachable_initial: "reachable initial_view"
| reachable_step: "reachable v \<Longrightarrow> reachable (step e v)"

section \<open>JavaScript numbers\<close>












section \<open>Scrolling: \<open>handleScroll\<close>\<close>




section \<open>Hover prefetch of one row\<close>

text \<open>
  Modelled from the spec: the user identity returned by \<open>useSession\<close>, declared outside
  the sources at hand, with the two fields the prefetch reads: the user's id and the
  connection id.
\<close>

record session =
  user_id :: string
  connectionId :: jsval

text \<open>
  A pending browser timer of the row: when it is due, and the \<open>message\<close> and \<open>session\<close>
  its callback closed over.
\<close>

record timer =
  deadline :: nat
  cb_message :: InitialThread
  cb_session :: session

text \<open>
  One mounted \<open>Thread\<close> row: its props, its three refs, the browser's pending timers set
  by this row (by handle), the clock in milliseconds, and the calls of \<open>preloadThread\<close>
  made so far (user id, thread key, connection id). The console line of the timer callback
  is not recorded.
\<close>

record thread_row =
  message :: InitialThread
  row_selectMode :: MailSelectMode
  row_session :: "session option"
  isHovering :: bool
  hasPrefetched :: bool
  hoverTimeoutRef :: "nat option"
  timers :: "(nat \<times> timer) list"
  next_handle :: nat
  now :: nat
  prefetches :: "(string \<times> jsval \<times> jsval) list"

definition HOVER_DELAY :: nat where
  "HOVER_DELAY = 1000"

definition clearTimeout :: "nat \<Rightarrow> thread_row \<Rightarrow> thread_row" where
  "clearTimeout h r = r\<lparr>timers := filter (\<lambda>p. fst p \<noteq> h) (timers r)\<rparr>"

text \<open>
  \<open>if (hoverTimeoutRef.current) clearTimeout(hoverTimeoutRef.current)\<close>: timer handles
  are positive numbers, so a stored handle is truthy.
\<close>

definition clear_hover_timeout :: "thread_row \<Rightarrow> thread_row" where
  "clear_hover_timeout r =
     (case hoverTimeoutRef r of None \<Rightarrow> r | Some h \<Rightarrow> clearTimeout h r)"

text \<open>The callback given to \<open>setTimeout\<close>.\<close>

definition hover_callback :: "timer \<Rightarrow> thread_row \<Rightarrow> thread_row" where
  "hover_callback tm r =
     (if isHovering r then
        (let messageId = nullish (threadId (cb_message tm)) (Str (id_m (cb_message tm)))
         in r\<lparr>prefetches :=
                 prefetches r @ [(user_id (cb_session tm), messageId, connectionId (cb_session tm))],
               hasPrefetched := True\<rparr>)
      else r)"

text \<open>
  \<open>session?.user.id\<close> holds for a session whose user id is a non-empty string.
  \<open>setTimeout\<close> returns a fresh positive handle and leaves a timer pending that is due
  \<open>HOVER_DELAY\<close> after the current time.
\<close>

definition handleMouseEnter :: "thread_row \<Rightarrow> thread_row" where
  "handleMouseEnter r =
     (let r1 = r\<lparr>isHovering := True\<rparr>
      in case row_session r1 of
           None \<Rightarrow> r1
         | Some s \<Rightarrow>
             if row_selectMode r1 = Single \<and> user_id s \<noteq> [] \<and> \<not> hasPrefetched r1
             then (let r2 = clear_hover_timeout r1;
                       h = Suc (next_handle r2)
                   in r2\<lparr>hoverTimeoutRef := Some h,
                         next_handle := h,
                         timers := timers r2 @
                           [(h, \<lparr>deadline = now r2 + HOVER_DELAY,
                                 cb_message = message r2, cb_session = s\<rparr>)]\<rparr>)
             else r1)"

definition handleMouseLeave :: "thread_row \<Rightarrow> thread_row" where
  "handleMouseLeave r = clear_hover_timeout (r\<lparr>isHovering := False\<rparr>)"

text \<open>
  A render with new props; the effect with dependency \<open>[message.id]\<close> resets the
  prefetch flag when the id has changed.
\<close>

definition rerender ::
  "InitialThread \<Rightarrow> MailSelectMode \<Rightarrow> session option \<Rightarrow> thread_row \<Rightarrow> thread_row" where
  "rerender m mode s r =
     (let r1 = r\<lparr>message := m, row_selectMode := mode, row_session := s\<rparr>
      in if id_m m \<noteq> id_m (message r) then r1\<lparr>hasPrefetched := False\<rparr> else r1)"

text \<open>The cleanup of the mount effect.\<close>

definition unmount :: "thread_row \<Rightarrow> thread_row" where
  "unmount r = clear_hover_timeout r"

text \<open>
  The clock moves to \<open>t\<close>: every pending timer that is due by then leaves the pending
  list and its callback runs, in the order the timers were set.
\<close>

definition advance :: "nat \<Rightarrow> thread_row \<Rightarrow> thread_row" where
  "advance t r =
     (let t' = max t (now r);
          due = filter (\<lambda>p. deadline (snd p) \<le> t') (timers r);
          r1 = r\<lparr>timers := filter (\<lambda>p. \<not> deadline (snd p) \<le> t') (timers r), now := t'\<rparr>
      in fold (\<lambda>p. hover_callback (snd p)) due r1)"

datatype row_event =
    MouseEnter
  | MouseLeave
  | Rerender InitialThread MailSelectMode "session option"
  | Unmount

fun row_step :: "row_event \<Rightarrow> thread_row \<Rightarrow> thread_row" where
  "row_step MouseEnter r = handleMouseEnter r"
| "row_step MouseLeave r = handleMouseLeave r"
| "row_step (Rerender m mode s) r = rerender m mode s r"
| "row_step Unmount r = unmount r"

text \<open>A run of time-stamped events: the clock moves to the event's time, then it is handled.\<close>

fun run_row :: "(nat \<times> row_event) list \<Rightarrow> thread_row \<Rightarrow> thread_row" where
  "run_row [] r = r"
| "run_row ((t, e) # es) r = run_row es (row_step e (advance t r))"

definition mount ::
  "InitialThread \<Rightarrow> MailSelectMode \<Rightarrow> session option \<Rightarrow> nat \<Rightarrow> thread_row" where
  "mount m mode s t =
     \<lparr>message = m, row_selectMode = mode, row_session = s,
      isHovering = False, hasPrefetched = False, hoverTimeoutRef = None,
      timers = [], next_handle = 0, now = t, prefetches = []\<rparr>"

inductive row_reachable :: "thread_row \<Rightarrow> bool" where
  row_mounted: "row_reachable (mount m mode s t)"
| row_event: "row_reachable r \<Longrightarrow> row_reachable (row_step e (advance t r))"
| row_time: "row_reachable r \<Longrightarrow> row_reachable (advance t r)"

text \<open>An event that leaves the row's \<open>message.id\<close> as it is.\<close>

fun keeps_id :: "string \<Rightarrow> row_event \<Rightarrow> bool" where
  "keeps_id i (Rerender m mode s) = (id_m m = i)"
| "keeps_id i e = True"

section \<open>Sample data\<close>

text \<open>Four loaded rows, used to instantiate the theorems below.\<close>

definition demo_items :: "InitialThread list" where
  "demo_items =
     [\<lparr>id_m = ''m1'', threadId = Str ''t1'', unread = True\<rparr>,
      \<lparr>id_m = ''m2'', threadId = Undefined, unread = False\<rparr>,
      \<lparr>id_m = ''m3'', threadId = Str ''t3'', unread = True\<rparr>,
      \<lparr>id_m = ''m4'', threadId = Str ''t4'', unread = False\<rparr>]"

text \<open>Two rows where the id of one is the thread id of the other.\<close>

definition key_clash_items :: "InitialThread list" where
  "key_clash_items =
     [\<lparr>id_m = ''a1'', threadId = Str ''m1'', unread = False\<rparr>,
      \<lparr>id_m = ''m1'', threadId = Str ''t9'', unread = False\<rparr>]"

text \<open>
  A selection with two bulk-selected rows, and the view after opening the second sample
  row, pressing Control and clicking the third.
\<close>

definition bulk_read_view :: view where
  "bulk_read_view =
     \<lparr>mail = \<lparr>selected = Null, bulkSelected = [''m1'', ''m3'']\<rparr>,
      massSelectMode = False, rangeSelectMode = False, selectAllBelowMode = False,
      effects = []\<rparr>"

definition selected_then_toggled :: view where
  "selected_then_toggled =
     step (RowClick demo_items (demo_items ! 2) (Resolved True) True)
       (step (KeyDown Control demo_items (Resolved True))
          (step (RowClick demo_items (demo_items ! 1) (Resolved True) True) initial_view))"

text \<open>A row mounted at time 0 in \<open>single\<close> mode with a signed-in user.\<close>

definition demo_row :: thread_row where
  "demo_row =
     mount (demo_items ! 0) Single (Some \<lparr>user_id = ''u1'', connectionId = Str ''c1''\<rparr>) 0"

text \<open>
  The view after the hotkey Alt+Shift, and the view after a click in \<open>single\<close> mode on
  the first sample row whose request to mark it as read was rejected.
\<close>

definition select_all_below_view :: view where
  "select_all_below_view = step (KeyDown Alt_Shift demo_items (Resolved True)) initial_view"

definition opened_row_view :: view where
  "opened_row_view = step (RowClick demo_items (demo_items ! 0) Rejected True) initial_view"

text \<open>
  A row that replaces the first sample row under the pointer, and the hovered sample row
  after that replacement: the pointer enters at 0 ms, the row is rendered with the new
  message at 500 ms, and the pointer leaves at 1500 ms.
\<close>

definition replaced_item :: InitialThread where
  "replaced_item = \<lparr>id_m = ''m5'', threadId = Str ''t5'', unread = True\<rparr>"

definition stale_timer_row :: thread_row where
  "stale_timer_row =
     run_row [(0, MouseEnter),
              (500, Rerender replaced_item Single (Some \<lparr>user_id = ''u1'', connectionId = Str ''c1''\<rparr>)),
              (1500, MouseLeave)] demo_row"


section \<open>Notions used in the statements\<close>

text \<open>The effects a handler added to the view's log.\<close>

definition new_effects :: "view \<Rightarrow> view \<Rightarrow> effect list" where
  "new_effects v v' = drop (length (effects v)) (effects v')"

text \<open>
  The key whose release ends a mode, as \<open>handleKeyUp\<close> has it: Control or Meta for
  \<open>mass\<close>, Shift for \<open>range\<close>, Alt for \<open>selectAllBelow\<close>; in \<open>single\<close> mode no
  modifier is active and any key will do.
\<close>

fun releasing_key :: "MailSelectMode \<Rightarrow> string \<Rightarrow> bool" where
  "releasing_key Mass key = (key = ''Control'' \<or> key = ''Meta'')"
| "releasing_key Range key = (key = ''Shift'')"
| "releasing_key SelectAllBelow key = (key = ''Alt'')"
| "releasing_key Single key = True"

text \<open>At most one of the three mode flags is set.\<close>

definition one_mode_flag :: "view \<Rightarrow> bool" where
  "one_mode_flag v =
     (\<not> (massSelectMode v \<and> rangeSelectMode v)
      \<and> \<not> (massSelectMode v \<and> selectAllBelowMode v)
      \<and> \<not> (rangeSelectMode v \<and> selectAllBelowMode v))"

text \<open>
  The pending timers of a row: at most one, it is the one the ref holds, and none is
  pending unless the pointer is over the row.
\<close>

definition row_inv :: "thread_row \<Rightarrow> bool" where
  "row_inv r =
     (length (timers r) \<le> 1
      \<and> list_all (\<lambda>p. hoverTimeoutRef r = Some (fst p)) (timers r)
      \<and> (timers r = [] \<or> isHovering r))"

section \<open>Array operations\<close>


lemma indexOf_ge: "- 1 \<le> indexOf xs v"
  by (induction xs) (auto simp: Let_def)

lemma indexOf_notin: "x \<notin> set xs \<Longrightarrow> indexOf xs (Str x) = - 1"
  by (induction xs) (auto simp: Let_def)

lemma indexOf_in: "x \<in> set xs \<Longrightarrow> 0 \<le> indexOf xs (Str x)"
proof (induction xs)
  case Nil
  then show ?case by simp
next
  case (Cons y ys)
  then show ?case using indexOf_ge [of ys "Str x"] by (auto simp: Let_def)
qed

lemma indexOf_absent_iff: "indexOf xs (Str x) = - 1 \<longleftrightarrow> x \<notin> set xs"
  using indexOf_in [of x xs] indexOf_notin [of x xs] by fastforce

lemma indexOf_Null [simp]: "indexOf xs Null = - 1"
  by (induction xs) auto

lemma indexOf_Undefined [simp]: "indexOf xs Undefined = - 1"
  by (induction xs) auto

lemma indexOf_first:
  "a < length xs \<Longrightarrow> xs ! a = x \<Longrightarrow> x \<notin> set (take a xs) \<Longrightarrow> indexOf xs (Str x) = int a"
proof (induction xs arbitrary: a)
  case Nil
  then show ?case by simp
next
  case (Cons y ys)
  show ?case
  proof (cases a)
    case 0
    with Cons.prems show ?thesis by simp
  next
    case (Suc k)
    with Cons.prems have "k < length ys" "ys ! k = x" "x \<notin> set (take k ys)" "y \<noteq> x"
      by auto
    with Cons.IH [of k] Suc show ?thesis by (simp add: Let_def)
  qed
qed

lemma distinct_first_occurrence:
  "distinct xs \<Longrightarrow> a < length xs \<Longrightarrow> xs ! a \<notin> set (take a xs)"
  by (metis append_take_drop_id distinct_append disjoint_iff in_set_conv_nth
        Cons_nth_drop_Suc list.set_intros(1))

lemma slice_between:
  assumes "a \<le> b" "b < length xs"
  shows "slice xs (int a) (int b + 1) = map (\<lambda>i. xs ! i) [a..<Suc b]"
proof -
  have "slice xs (int a) (int b + 1) = take (Suc b - a) (drop a xs)"
    using assms by (simp add: slice_def rel_index_def Let_def min_def nat_add_distrib)
  also have "\<dots> = map (\<lambda>i. xs ! i) [a..<Suc b]"
    using assms by (intro nth_equalityI) (simp_all del: upt_Suc)
  finally show ?thesis .
qed

lemma lastSelectedItem_anchor:
  "nullish (nullish (at_index (bulkSelected ms) (int (length (bulkSelected ms)) - 1))
                    (selected ms)) (Str (id_m msg))
   = Str (anchor_id ms msg)"
  by (cases "bulkSelected ms" rule: rev_cases; cases "selected ms")
     (auto simp: nullish_def at_index_def anchor_id_def)


lemma distinct_occurs_first_at:
  "distinct xs \<Longrightarrow> a < length xs \<Longrightarrow> occurs_first_at xs (xs ! a) a"
  by (simp add: occurs_first_at_def distinct_first_occurrence)

lemma indexOf_occurs_first_at:
  "occurs_first_at xs x a \<Longrightarrow> indexOf xs (Str x) = int a"
  by (simp add: occurs_first_at_def indexOf_first)

section \<open>Range selection\<close>

text \<open>
  Claim C1. A click in \<open>range\<close> mode, with the anchor (the last entry of
  \<open>bulkSelected\<close>, else the selected id, else the clicked row's own id) found in the
  loaded sequence at index \<open>a\<close> and the clicked row's id found at index \<open>b\<close>, sets
  \<open>bulkSelected\<close> to the ids at the indices \<open>min a b\<close> to \<open>max a b\<close>, both included,
  in the order of the sequence, whichever of \<open>a\<close> and \<open>b\<close> is the smaller. The index at
  which an id is found is its first one, as \<open>indexOf\<close> reports it; in a sequence of
  distinct ids that is its only one (\<open>distinct_occurs_first_at\<close>).
\<close>

theorem range_click_selects_inclusive_slice:
  assumes "occurs_first_at (map id_m items) (anchor_id ms msg) a"
      and "occurs_first_at (map id_m items) (id_m msg) b"
  shows "bulkSelected (handleMailClick Range items ms msg)
           = map (\<lambda>i. id_m (items ! i)) [min a b ..< Suc (max a b)]"
proof -
  let ?ids = "map id_m items"
  have la: "a < length ?ids" and lb: "b < length ?ids"
    using assms by (simp_all add: occurs_first_at_def)
  have start: "indexOf ?ids (Str (anchor_id ms msg)) = int a"
    using assms(1) by (rule indexOf_occurs_first_at)
  have stop: "indexOf ?ids (Str (id_m msg)) = int b"
    using assms(2) by (rule indexOf_occurs_first_at)
  have "bulkSelected (handleMailClick Range items ms msg)
          = slice ?ids (min (int a) (int b)) (max (int a) (int b) + 1)"
    by (simp add: handleMailClick_def lastSelectedItem_anchor start stop Let_def)
  also have "\<dots> = slice ?ids (int (min a b)) (int (max a b) + 1)"
    by (simp add: min_def max_def)
  also have "\<dots> = map (\<lambda>i. ?ids ! i) [min a b ..< Suc (max a b)]"
    using la lb by (intro slice_between) simp_all
  also have "\<dots> = map (\<lambda>i. id_m (items ! i)) [min a b ..< Suc (max a b)]"
    using la lb by (intro map_cong) (auto simp del: upt_Suc)
  finally show ?thesis .
qed

theorem range_click_selects_inclusive_slice_witness:
  "occurs_first_at (map id_m demo_items)
     (anchor_id \<lparr>selected = Null, bulkSelected = [''m4'', ''m3'']\<rparr> (demo_items ! 0)) 2
   \<and> occurs_first_at (map id_m demo_items) (id_m (demo_items ! 0)) 0
   \<and> bulkSelected (handleMailClick Range demo_items
        \<lparr>selected = Null, bulkSelected = [''m4'', ''m3'']\<rparr> (demo_items ! 0))
      = [''m1'', ''m2'', ''m3'']"
proof -
  have a: "occurs_first_at (map id_m demo_items)
     (anchor_id \<lparr>selected = Null, bulkSelected = [''m4'', ''m3'']\<rparr> (demo_items ! 0)) 2"
    by (simp add: occurs_first_at_def anchor_id_def demo_items_def)
  have b: "occurs_first_at (map id_m demo_items) (id_m (demo_items ! 0)) 0"
    by (simp add: occurs_first_at_def demo_items_def)
  have "map (\<lambda>i. id_m (demo_items ! i)) [min 2 0 ..< Suc (max 2 0)] = [''m1'', ''m2'', ''m3'']"
    by (simp add: demo_items_def upt_rec)
  with range_click_selects_inclusive_slice [OF a b] a b show ?thesis by simp
qed

text \<open>
  Claim C10. In \<open>range\<close> mode, when the anchor id or the clicked row's id is not in the
  loaded sequence, and in \<open>selectAllBelow\<close> mode, when the clicked row's id is not in
  the loaded sequence, the click returns the selection state it was given: neither
  \<open>selected\<close> nor \<open>bulkSelected\<close> changes.
\<close>

theorem absent_id_click_changes_nothing:
  "(anchor_id ms msg \<notin> set (map id_m items) \<or> id_m msg \<notin> set (map id_m items)
      \<longrightarrow> handleMailClick Range items ms msg = ms)
   \<and> (id_m msg \<notin> set (map id_m items)
      \<longrightarrow> handleMailClick SelectAllBelow items ms msg = ms)"
  by (auto simp: handleMailClick_def lastSelectedItem_anchor Let_def indexOf_notin
           simp del: set_map)

theorem absent_id_click_changes_nothing_witness:
  "(anchor_id \<lparr>selected = Str ''gone'', bulkSelected = []\<rparr> (demo_items ! 1)
       \<notin> set (map id_m demo_items)
     \<and> handleMailClick Range demo_items \<lparr>selected = Str ''gone'', bulkSelected = []\<rparr>
         (demo_items ! 1) = \<lparr>selected = Str ''gone'', bulkSelected = []\<rparr>)
   \<and> (id_m \<lparr>id_m = ''m9'', threadId = Undefined, unread = False\<rparr> \<notin> set (map id_m demo_items)
     \<and> handleMailClick SelectAllBelow demo_items \<lparr>selected = Str ''t1'', bulkSelected = [''m2'']\<rparr>
         \<lparr>id_m = ''m9'', threadId = Undefined, unread = False\<rparr>
       = \<lparr>selected = Str ''t1'', bulkSelected = [''m2'']\<rparr>)"
proof -
  have a: "anchor_id \<lparr>selected = Str ''gone'', bulkSelected = []\<rparr> (demo_items ! 1)
       \<notin> set (map id_m demo_items)"
    by (simp add: anchor_id_def demo_items_def)
  have b: "id_m \<lparr>id_m = ''m9'', threadId = Undefined, unread = False\<rparr> \<notin> set (map id_m demo_items)"
    by (simp add: demo_items_def)
  show ?thesis
    using a b
      absent_id_click_changes_nothing [of "\<lparr>selected = Str ''gone'', bulkSelected = []\<rparr>"
        "demo_items ! 1" demo_items]
      absent_id_click_changes_nothing [of "\<lparr>selected = Str ''t1'', bulkSelected = [''m2'']\<rparr>"
        "\<lparr>id_m = ''m9'', threadId = Undefined, unread = False\<rparr>" demo_items]
    by blast
qed

section \<open>Single selection\<close>

text \<open>
  Claim C4, as the specification states it, fails: from the initial selection a click
  on the first of the two rows selects its thread id \<open>m1\<close>; the second row has the
  selection key \<open>t9\<close>, which is not the selected value, yet a click on it clears the
  selection instead of selecting \<open>t9\<close>, because its \<open>id\<close> is \<open>m1\<close>.
\<close>

theorem single_click_other_key_counterexample:
  "selected (handleMailClick Single key_clash_items \<lparr>selected = Null, bulkSelected = []\<rparr>
              (key_clash_items ! 0)) = Str ''m1''
   \<and> selection_key (key_clash_items ! 1) = Str ''t9''
   \<and> selected (handleMailClick Single key_clash_items \<lparr>selected = Str ''m1'', bulkSelected = []\<rparr>
              (key_clash_items ! 1)) = Null"
  by (simp add: handleMailClick_def key_clash_items_def selection_key_def nullish_def)

text \<open>
  Claim C4, amended. In \<open>single\<close> mode a click on a row whose \<open>threadId\<close> or whose
  \<open>id\<close> equals the selected value sets \<open>selected\<close> to \<open>null\<close> and empties
  \<open>bulkSelected\<close>; every row whose selection key equals the selected value is such a
  row. A click on any other row sets \<open>selected\<close> to the row's \<open>threadId\<close> if present,
  else its \<open>id\<close>, and empties \<open>bulkSelected\<close>.
\<close>

theorem single_click_toggles_on_threadId_or_id:
  "handleMailClick Single items ms msg =
     (if selected ms = threadId msg \<or> selected ms = Str (id_m msg)
      then \<lparr>selected = Null, bulkSelected = []\<rparr>
      else \<lparr>selected = selection_key msg, bulkSelected = []\<rparr>)
   \<and> (selected ms = selection_key msg \<longrightarrow>
        handleMailClick Single items ms msg = \<lparr>selected = Null, bulkSelected = []\<rparr>)"
  by (cases "threadId msg") (auto simp: handleMailClick_def selection_key_def nullish_def)

theorem single_click_toggles_on_threadId_or_id_witness:
  "selected \<lparr>selected = Str ''t1'', bulkSelected = [''m2'']\<rparr> = selection_key (demo_items ! 0)
   \<and> handleMailClick Single demo_items \<lparr>selected = Str ''t1'', bulkSelected = [''m2'']\<rparr>
        (demo_items ! 0) = \<lparr>selected = Null, bulkSelected = []\<rparr>
   \<and> handleMailClick Single demo_items \<lparr>selected = Str ''t1'', bulkSelected = [''m2'']\<rparr>
        (demo_items ! 1) = \<lparr>selected = Str ''m2'', bulkSelected = []\<rparr>"
proof -
  let ?ms = "\<lparr>selected = Str ''t1'', bulkSelected = [''m2'']\<rparr>"
  have k: "selected ?ms = selection_key (demo_items ! 0)"
    by (simp add: selection_key_def demo_items_def nullish_def)
  have a: "handleMailClick Single demo_items ?ms (demo_items ! 0)
             = \<lparr>selected = Null, bulkSelected = []\<rparr>"
    using single_click_toggles_on_threadId_or_id [of demo_items ?ms "demo_items ! 0"] k
    by blast
  have o: "\<not> (selected ?ms = threadId (demo_items ! 1)
               \<or> selected ?ms = Str (id_m (demo_items ! 1)))"
    by (simp add: demo_items_def)
  have k1: "selection_key (demo_items ! 1) = Str ''m2''"
    by (simp add: selection_key_def demo_items_def nullish_def)
  have b: "handleMailClick Single demo_items ?ms (demo_items ! 1)
             = \<lparr>selected = Str ''m2'', bulkSelected = []\<rparr>"
    using single_click_toggles_on_threadId_or_id [of demo_items ?ms "demo_items ! 1"]
    by (simp only: if_not_P [OF o] k1)
  from k a b show ?thesis by (intro conjI)
qed

section \<open>Selection state and bulk operations\<close>

lemma selected_then_toggled_mail:
  "mail selected_then_toggled = \<lparr>selected = Str ''m2'', bulkSelected = [''m3'']\<rparr>"
  by (simp add: selected_then_toggled_def initial_view_def demo_items_def
        Thread_handleMailClick_def handleMailClick_def selectMode_def resetSelectMode_def
        isMailSelected_def not_mode_def nullish_def includes_js_def emit_def Let_def)

text \<open>
  Claim C2, as the specification states it, fails: opening a row and then toggling
  another one in \<open>mass\<close> mode reaches a state with a non-empty \<open>bulkSelected\<close> whose
  \<open>selected\<close> is still set.
\<close>

theorem bulk_keeps_selected_counterexample:
  "reachable selected_then_toggled
   \<and> bulkSelected (mail selected_then_toggled) = [''m3'']
   \<and> selected (mail selected_then_toggled) = Str ''m2''"
proof -
  have "reachable selected_then_toggled"
    unfolding selected_then_toggled_def
    by (intro reachable_step reachable_initial)
  then show ?thesis by (simp add: selected_then_toggled_mail)
qed

lemma mail_emit [simp]: "mail (emit e v) = mail v"
  by (simp add: emit_def)

lemma mail_setMail [simp]: "mail (setMail f v) = f (mail v)"
  by (simp add: setMail_def)

text \<open>
  Claim C2, amended. A click in \<open>mass\<close>, \<open>range\<close> or \<open>selectAllBelow\<close> mode and the
  select-all command leave \<open>selected\<close> as it was; a click in \<open>single\<close> mode leaves
  \<open>bulkSelected\<close> empty.
\<close>

theorem bulk_operations_keep_selected:
  "(mode \<noteq> Single \<longrightarrow> selected (handleMailClick mode items ms msg) = selected ms)
   \<and> selected (mail (selectAll items v)) = selected (mail v)
   \<and> bulkSelected (handleMailClick Single items ms msg) = []"
proof (intro conjI impI)
  assume "mode \<noteq> Single"
  then show "selected (handleMailClick mode items ms msg) = selected ms"
    by (cases mode) (simp_all add: handleMailClick_def Let_def)
next
  show "selected (mail (selectAll items v)) = selected (mail v)"
    by (simp add: selectAll_def Let_def)
next
  show "bulkSelected (handleMailClick Single items ms msg) = []"
    by (simp add: handleMailClick_def)
qed

theorem bulk_operations_keep_selected_witness:
  "Mass \<noteq> Single
   \<and> selected (handleMailClick Mass demo_items \<lparr>selected = Str ''m2'', bulkSelected = []\<rparr>
        (demo_items ! 2)) = Str ''m2''"
  using bulk_operations_keep_selected [of Mass demo_items
          "\<lparr>selected = Str ''m2'', bulkSelected = []\<rparr>" "demo_items ! 2"]
  by simp

section \<open>Selection mode\<close>

lemma flags_resetSelectMode [simp]:
  "massSelectMode (resetSelectMode v) = False"
  "rangeSelectMode (resetSelectMode v) = False"
  "selectAllBelowMode (resetSelectMode v) = False"
  "mail (resetSelectMode v) = mail v"
  "effects (resetSelectMode v) = effects v"
  by (simp_all add: resetSelectMode_def)

lemma flags_emit [simp]:
  "massSelectMode (emit e v) = massSelectMode v"
  "rangeSelectMode (emit e v) = rangeSelectMode v"
  "selectAllBelowMode (emit e v) = selectAllBelowMode v"
  "effects (emit e v) = effects v @ [e]"
  by (simp_all add: emit_def)

lemma flags_setMail [simp]:
  "massSelectMode (setMail f v) = massSelectMode v"
  "rangeSelectMode (setMail f v) = rangeSelectMode v"
  "selectAllBelowMode (setMail f v) = selectAllBelowMode v"
  "effects (setMail f v) = effects v"
  by (simp_all add: setMail_def)

lemma flags_selectAll [simp]:
  "massSelectMode (selectAll items v) = massSelectMode v"
  "rangeSelectMode (selectAll items v) = rangeSelectMode v"
  "selectAllBelowMode (selectAll items v) = selectAllBelowMode v"
  by (simp_all add: selectAll_def Let_def)

lemma flags_bulk_mark [simp]:
  "massSelectMode (bulk_mark rq a b res v) = False"
  "rangeSelectMode (bulk_mark rq a b res v) = False"
  "selectAllBelowMode (bulk_mark rq a b res v) = False"
  by (simp_all add: bulk_mark_def Let_def split: mutation_result.split)

lemma flags_Thread_handleMailClick [simp]:
  "massSelectMode (Thread_handleMailClick items msg res ok v) = massSelectMode v"
  "rangeSelectMode (Thread_handleMailClick items msg res ok v) = rangeSelectMode v"
  "selectAllBelowMode (Thread_handleMailClick items msg res ok v) = selectAllBelowMode v"
  by (simp_all add: Thread_handleMailClick_def Let_def split: mutation_result.split)

lemma one_mode_flag_useHotKey: "one_mode_flag (useHotKey k items res v)"
  by (cases k) (simp_all add: one_mode_flag_def)

lemma one_mode_flag_step: "one_mode_flag v \<Longrightarrow> one_mode_flag (step e v)"
proof (cases e)
  case (KeyDown k items res)
  then show ?thesis by (simp add: one_mode_flag_useHotKey)
next
  case (KeyUp key)
  assume "one_mode_flag v"
  with KeyUp show ?thesis by (auto simp: one_mode_flag_def handleKeyUp_def Let_def)
next
  case Blur
  then show ?thesis by (simp add: one_mode_flag_def handleBlur_def)
next
  case (RowClick items msg res ok)
  assume "one_mode_flag v"
  with RowClick show ?thesis by (simp add: one_mode_flag_def)
qed

lemma reachable_one_mode_flag: "reachable v \<Longrightarrow> one_mode_flag v"
  by (induction rule: reachable.induct)
     (simp_all add: one_mode_flag_step, simp add: one_mode_flag_def initial_view_def)

text \<open>
  Claim C3, as the specification states it, fails for \<open>selectAllBelow\<close>: the mode is
  entered with the hotkey Alt+Shift, and releasing Shift leaves it in place.
\<close>

theorem shift_release_keeps_select_all_below_counterexample:
  "reachable select_all_below_view
   \<and> selectMode select_all_below_view = SelectAllBelow
   \<and> selectMode (handleKeyUp ''Shift'' select_all_below_view) = SelectAllBelow"
proof -
  have "reachable select_all_below_view"
    unfolding select_all_below_view_def by (intro reachable_step reachable_initial)
  then show ?thesis
    by (simp add: select_all_below_view_def selectMode_def handleKeyUp_def Let_def)
qed

text \<open>
  Claim C3, amended. In every view reached from the initial one by hotkeys, key releases,
  blur events and row clicks, releasing Control or Meta in \<open>mass\<close> mode, Shift in
  \<open>range\<close> mode, Alt in \<open>selectAllBelow\<close> mode, or any key in \<open>single\<close> mode,
  leaves the mode \<open>single\<close>; releasing Shift in \<open>selectAllBelow\<close> mode leaves that
  mode in place; a blur event leaves the mode \<open>single\<close> in any view at all.
\<close>

theorem key_release_and_blur_reset_mode:
  "(reachable v \<and> releasing_key (selectMode v) key \<longrightarrow> selectMode (handleKeyUp key v) = Single)
   \<and> (selectMode v = SelectAllBelow \<longrightarrow> selectMode (handleKeyUp ''Shift'' v) = SelectAllBelow)
   \<and> selectMode (handleBlur v) = Single"
proof (intro conjI impI)
  assume a: "reachable v \<and> releasing_key (selectMode v) key"
  then have f: "one_mode_flag v" by (simp add: reachable_one_mode_flag)
  from a have r: "releasing_key (selectMode v) key" by simp
  show "selectMode (handleKeyUp key v) = Single"
  proof (cases "selectMode v")
    case Mass
    with r f show ?thesis
      by (auto simp: selectMode_def handleKeyUp_def one_mode_flag_def Let_def split: if_splits)
  next
    case Range
    with r f show ?thesis
      by (auto simp: selectMode_def handleKeyUp_def one_mode_flag_def Let_def split: if_splits)
  next
    case Single
    then show ?thesis
      by (auto simp: selectMode_def handleKeyUp_def Let_def split: if_splits)
  next
    case SelectAllBelow
    with r f show ?thesis
      by (auto simp: selectMode_def handleKeyUp_def one_mode_flag_def Let_def split: if_splits)
  qed
next
  assume "selectMode v = SelectAllBelow"
  then show "selectMode (handleKeyUp ''Shift'' v) = SelectAllBelow"
    by (simp add: selectMode_def handleKeyUp_def Let_def split: if_splits)
next
  show "selectMode (handleBlur v) = Single"
    by (simp add: selectMode_def handleBlur_def)
qed

theorem key_release_and_blur_reset_mode_witness:
  "reachable (step (KeyDown Alt_Shift demo_items (Resolved True)) initial_view)
   \<and> selectMode (step (KeyDown Alt_Shift demo_items (Resolved True)) initial_view) = SelectAllBelow
   \<and> releasing_key (selectMode (step (KeyDown Alt_Shift demo_items (Resolved True)) initial_view))
        ''Alt''
   \<and> selectMode (handleKeyUp ''Alt''
        (step (KeyDown Alt_Shift demo_items (Resolved True)) initial_view)) = Single"
proof -
  let ?v = "step (KeyDown Alt_Shift demo_items (Resolved True)) initial_view"
  have r: "reachable ?v"
    by (intro reachable_step reachable_initial)
  have m: "selectMode ?v = SelectAllBelow"
    by (simp add: selectMode_def)
  have k: "releasing_key (selectMode ?v) ''Alt''"
    by (simp only: m releasing_key.simps)
  from r k key_release_and_blur_reset_mode [of ?v "''Alt''"]
  have "selectMode (handleKeyUp ''Alt'' ?v) = Single" by blast
  with r m k show ?thesis by (intro conjI)
qed

section \<open>Bulk read state\<close>

text \<open>
  When the awaited mutation resolves, the four bulk hotkeys send the current
  \<open>bulkSelected\<close>; with \<open>success\<close> true they empty \<open>bulkSelected\<close> and emit the
  success notice, with \<open>success\<close> false they leave the selection state as it was and
  emit the failure notice.
\<close>

lemma bulk_mark_resolved_outcomes:
  "(k \<in> {Meta_Shift_i, Control_Shift_i} \<longrightarrow>
      bulkSelected (mail (useHotKey k items (Resolved True) v)) = []
      \<and> effects (useHotKey k items (Resolved True) v)
          = effects v @ [MarkAsRead (bulkSelected (mail v)), ToastSuccess ''Marked as read'']
      \<and> mail (useHotKey k items (Resolved False) v) = mail v
      \<and> effects (useHotKey k items (Resolved False) v)
          = effects v @ [MarkAsRead (bulkSelected (mail v)), ToastError ''Failed to mark as read''])
   \<and> (k \<in> {Meta_Shift_u, Control_Shift_u} \<longrightarrow>
      bulkSelected (mail (useHotKey k items (Resolved True) v)) = []
      \<and> effects (useHotKey k items (Resolved True) v)
          = effects v @ [MarkAsUnread (bulkSelected (mail v)), ToastSuccess ''Marked as unread'']
      \<and> mail (useHotKey k items (Resolved False) v) = mail v
      \<and> effects (useHotKey k items (Resolved False) v)
          = effects v @ [MarkAsUnread (bulkSelected (mail v)), ToastError ''Failed to mark as unread''])"
  by (auto simp: bulk_mark_def Let_def)

text \<open>
  Claim C5 fails on the code when the mutation fails by rejecting: with two rows
  bulk-selected, Meta+Shift+i sends the request, the handler ends at the \<open>await\<close>
  without a \<open>catch\<close>, and no failure notice is among its effects; \<open>bulkSelected\<close> is
  left as it was.
\<close>

theorem bulk_mark_read_rejection_without_notice:
  "effects (useHotKey Meta_Shift_i demo_items Rejected bulk_read_view)
     = [MarkAsRead [''m1'', ''m3'']]
   \<and> ToastError ''Failed to mark as read''
       \<notin> set (effects (useHotKey Meta_Shift_i demo_items Rejected bulk_read_view))
   \<and> bulkSelected (mail (useHotKey Meta_Shift_i demo_items Rejected bulk_read_view))
       = [''m1'', ''m3'']"
  by (simp add: bulk_mark_def bulk_read_view_def Let_def)

lemma bulk_hotkeys_rejection_silent:
  "k \<in> {Meta_Shift_u, Control_Shift_u, Meta_Shift_i, Control_Shift_i} \<Longrightarrow>
   mail (useHotKey k items Rejected v) = mail v
   \<and> (\<forall>n. ToastError n \<notin> set (new_effects v (useHotKey k items Rejected v)))"
  by (auto simp: new_effects_def bulk_mark_def Let_def)

text \<open>
  Claim C6 fails on the bulk paths: with two rows bulk-selected and a mutation that
  reports success, Meta+Shift+i sends the request and emits the notice, and no
  revalidation (\<open>mutate()\<close>) is among its effects, whereas the row click handler's
  request is followed by one.
\<close>

theorem bulk_mark_read_success_without_revalidation:
  "effects (useHotKey Meta_Shift_i demo_items (Resolved True) bulk_read_view)
     = [MarkAsRead [''m1'', ''m3''], ToastSuccess ''Marked as read'']
   \<and> Mutate \<notin> set (effects (useHotKey Meta_Shift_i demo_items (Resolved True) bulk_read_view))
   \<and> Mutate \<in> set (effects (Thread_handleMailClick demo_items (demo_items ! 0)
                               (Resolved True) True bulk_read_view))"
  by (simp add: bulk_mark_def bulk_read_view_def Thread_handleMailClick_def selectMode_def
        not_mode_def isMailSelected_def demo_items_def Let_def)

lemma bulk_hotkeys_never_revalidate:
  "k \<in> {Meta_Shift_u, Control_Shift_u, Meta_Shift_i, Control_Shift_i} \<Longrightarrow>
   Mutate \<notin> set (new_effects v (useHotKey k items res v))"
  by (cases res) (auto simp: new_effects_def bulk_mark_def Let_def split: if_splits)

section \<open>Automatic mark-as-read on opening a row\<close>

lemma new_effects_Thread_handleMailClick:
  "new_effects v (Thread_handleMailClick items msg res ok v) =
     (if selectMode v = Single \<and> \<not> isMailSelected (mail v) msg \<and> unread msg
      then MarkAsRead [id_m msg] #
             (case res of Rejected \<Rightarrow> [ConsoleError]
              | Resolved r \<Rightarrow> if ok then [Mutate] else [Mutate, ConsoleError])
      else [])"
  by (simp add: new_effects_def Thread_handleMailClick_def not_mode_def Let_def
           split: mutation_result.split)

lemma mail_Thread_handleMailClick:
  "mail (Thread_handleMailClick items msg res ok v)
     = handleMailClick (selectMode v) items (mail v) msg"
  by (simp add: Thread_handleMailClick_def Let_def split: mutation_result.split)

lemma opened_row_view_eq:
  "opened_row_view =
     \<lparr>mail = \<lparr>selected = Str ''t1'', bulkSelected = []\<rparr>,
      massSelectMode = False, rangeSelectMode = False, selectAllBelowMode = False,
      effects = [MarkAsRead [''m1''], ConsoleError]\<rparr>"
  by (simp add: opened_row_view_def initial_view_def demo_items_def Thread_handleMailClick_def
        handleMailClick_def selectMode_def isMailSelected_def not_mode_def nullish_def
        emit_def Let_def)

text \<open>
  Claim C7 fails on the code where a row's \<open>threadId\<close> differs from its \<open>id\<close>. The
  first sample row has been opened, so \<open>selected\<close> holds its selection key \<open>t1\<close>, and
  it is still unread. A second click on it in \<open>single\<close> mode deselects it, as a click on
  the open row does, and yet the request to mark it as read is issued again:
  \<open>isMailSelected\<close> compares \<open>selected\<close> with the row's \<open>id\<close> only.
\<close>

theorem open_row_click_requests_read_again:
  "reachable opened_row_view
   \<and> selectMode opened_row_view = Single
   \<and> selected (mail opened_row_view) = selection_key (demo_items ! 0)
   \<and> new_effects opened_row_view
        (Thread_handleMailClick demo_items (demo_items ! 0) (Resolved True) True opened_row_view)
       = [MarkAsRead [''m1''], Mutate]
   \<and> mail (Thread_handleMailClick demo_items (demo_items ! 0) (Resolved True) True
        opened_row_view) = \<lparr>selected = Null, bulkSelected = []\<rparr>"
proof -
  have r: "reachable opened_row_view"
    unfolding opened_row_view_def by (intro reachable_step reachable_initial)
  have m: "selectMode opened_row_view = Single"
    by (simp add: opened_row_view_eq selectMode_def)
  have k: "selected (mail opened_row_view) = selection_key (demo_items ! 0)"
    by (simp add: opened_row_view_eq selection_key_def demo_items_def nullish_def)
  have e: "new_effects opened_row_view
        (Thread_handleMailClick demo_items (demo_items ! 0) (Resolved True) True opened_row_view)
       = [MarkAsRead [''m1''], Mutate]"
    by (simp add: new_effects_Thread_handleMailClick m)
       (simp add: opened_row_view_eq isMailSelected_def demo_items_def)
  have s: "mail (Thread_handleMailClick demo_items (demo_items ! 0) (Resolved True) True
        opened_row_view) = \<lparr>selected = Null, bulkSelected = []\<rparr>"
    by (simp add: mail_Thread_handleMailClick m)
       (simp add: opened_row_view_eq handleMailClick_def demo_items_def)
  from r m k e s show ?thesis by (intro conjI)
qed

section \<open>Loading more rows on scroll\<close>













section \<open>Hover prefetch\<close>

lemma hover_callback_fields [simp]:
  "timers (hover_callback tm r) = timers r"
  "isHovering (hover_callback tm r) = isHovering r"
  "hoverTimeoutRef (hover_callback tm r) = hoverTimeoutRef r"
  "message (hover_callback tm r) = message r"
  "now (hover_callback tm r) = now r"
  by (simp_all add: hover_callback_def Let_def)

lemma fold_hover_callback_fields [simp]:
  "timers (fold (\<lambda>p. hover_callback (snd p)) ds r) = timers r"
  "isHovering (fold (\<lambda>p. hover_callback (snd p)) ds r) = isHovering r"
  "hoverTimeoutRef (fold (\<lambda>p. hover_callback (snd p)) ds r) = hoverTimeoutRef r"
  "message (fold (\<lambda>p. hover_callback (snd p)) ds r) = message r"
  "now (fold (\<lambda>p. hover_callback (snd p)) ds r) = now r"
  by (induction ds arbitrary: r) simp_all

lemma advance_fields [simp]:
  "isHovering (advance t r) = isHovering r"
  "hoverTimeoutRef (advance t r) = hoverTimeoutRef r"
  "message (advance t r) = message r"
  "now (advance t r) = max t (now r)"
  "timers (advance t r) = filter (\<lambda>p. \<not> deadline (snd p) \<le> max t (now r)) (timers r)"
  by (simp_all add: advance_def Let_def)

lemma advance_idle:
  "timers r = [] \<Longrightarrow> advance t r = r\<lparr>now := max t (now r)\<rparr>"
  by (simp add: advance_def Let_def)

lemma advance_before_deadline:
  "timers r = [(h, tm)] \<Longrightarrow> max t (now r) < deadline tm \<Longrightarrow>
   advance t r = r\<lparr>now := max t (now r)\<rparr>"
  by (auto simp: advance_def Let_def max_def split: if_splits)

lemma advance_at_deadline:
  "timers r = [(h, tm)] \<Longrightarrow> deadline tm \<le> max t (now r) \<Longrightarrow>
   advance t r = hover_callback tm (r\<lparr>timers := [], now := max t (now r)\<rparr>)"
  by (simp add: advance_def Let_def)

lemma row_inv_advance: "row_inv r \<Longrightarrow> row_inv (advance t r)"
  by (auto simp: row_inv_def list_all_iff intro: order_trans [OF length_filter_le])

lemma clear_hover_timeout_fields [simp]:
  "isHovering (clear_hover_timeout r) = isHovering r"
  "hasPrefetched (clear_hover_timeout r) = hasPrefetched r"
  "hoverTimeoutRef (clear_hover_timeout r) = hoverTimeoutRef r"
  "message (clear_hover_timeout r) = message r"
  "now (clear_hover_timeout r) = now r"
  "prefetches (clear_hover_timeout r) = prefetches r"
  "next_handle (clear_hover_timeout r) = next_handle r"
  by (simp_all add: clear_hover_timeout_def clearTimeout_def split: option.split)

lemma list_all_ref_nil:
  "list_all (\<lambda>p. None = Some (fst p)) ts \<Longrightarrow> ts = []"
  by (cases ts) simp_all

lemma clear_hover_timeout_all:
  "list_all (\<lambda>p. hoverTimeoutRef r = Some (fst p)) (timers r) \<Longrightarrow>
   timers (clear_hover_timeout r) = []"
proof (cases "hoverTimeoutRef r")
  case None
  assume "list_all (\<lambda>p. hoverTimeoutRef r = Some (fst p)) (timers r)"
  with None have "timers r = []" by (simp add: list_all_ref_nil)
  with None show ?thesis by (simp add: clear_hover_timeout_def)
next
  case (Some h)
  assume "list_all (\<lambda>p. hoverTimeoutRef r = Some (fst p)) (timers r)"
  with Some show ?thesis
    by (auto simp: clear_hover_timeout_def clearTimeout_def list_all_iff filter_empty_conv)
qed

lemma row_inv_handleMouseEnter: "row_inv r \<Longrightarrow> row_inv (handleMouseEnter r)"
proof -
  assume a: "row_inv r"
  then have c: "timers (clear_hover_timeout (r\<lparr>isHovering := True\<rparr>)) = []"
    by (intro clear_hover_timeout_all) (simp add: row_inv_def)
  from a show ?thesis
    by (cases "row_session r") (simp_all add: handleMouseEnter_def Let_def row_inv_def c)
qed

lemma row_inv_handleMouseLeave: "row_inv r \<Longrightarrow> row_inv (handleMouseLeave r)"
proof -
  assume a: "row_inv r"
  then have "timers (clear_hover_timeout (r\<lparr>isHovering := False\<rparr>)) = []"
    by (intro clear_hover_timeout_all) (simp add: row_inv_def)
  then show ?thesis
    by (simp add: handleMouseLeave_def row_inv_def)
qed

lemma row_inv_rerender: "row_inv r \<Longrightarrow> row_inv (rerender m mode s r)"
  by (simp add: rerender_def row_inv_def Let_def)

lemma row_inv_unmount: "row_inv r \<Longrightarrow> row_inv (unmount r)"
proof -
  assume a: "row_inv r"
  then have "timers (clear_hover_timeout r) = []"
    by (intro clear_hover_timeout_all) (simp add: row_inv_def)
  then show ?thesis
    by (simp add: unmount_def row_inv_def)
qed

lemma row_inv_row_step: "row_inv r \<Longrightarrow> row_inv (row_step e r)"
  by (cases e)
     (simp_all add: row_inv_handleMouseEnter row_inv_handleMouseLeave row_inv_rerender
        row_inv_unmount)

lemma row_reachable_inv: "row_reachable r \<Longrightarrow> row_inv r"
proof (induction rule: row_reachable.induct)
  case (row_mounted m mode s t)
  show ?case by (simp add: row_inv_def mount_def)
next
  case (row_event r e t)
  then show ?case by (simp add: row_inv_row_step row_inv_advance)
next
  case (row_time r t)
  then show ?case by (simp add: row_inv_advance)
qed

lemma row_reachable_idle:
  "row_reachable r \<Longrightarrow> \<not> isHovering r \<Longrightarrow> timers r = []"
  using row_reachable_inv [of r] by (simp add: row_inv_def)

lemma handleMouseEnter_fields [simp]:
  "prefetches (handleMouseEnter r) = prefetches r"
  "now (handleMouseEnter r) = now r"
  "message (handleMouseEnter r) = message r"
  "hasPrefetched (handleMouseEnter r) = hasPrefetched r"
  "isHovering (handleMouseEnter r) = True"
  by (simp_all add: handleMouseEnter_def Let_def split: option.split)

lemma handleMouseEnter_timer:
  assumes "timers r = []"
  shows "timers (handleMouseEnter r) = []
         \<or> (\<exists>h tm. timers (handleMouseEnter r) = [(h, tm)] \<and> deadline tm = now r + HOVER_DELAY)"
proof -
  have "timers (clear_hover_timeout (r\<lparr>isHovering := True\<rparr>)) = []"
    using assms by (simp add: clear_hover_timeout_def clearTimeout_def split: option.split)
  with assms show ?thesis
    by (simp add: handleMouseEnter_def Let_def split: option.split)
qed

lemma handleMouseEnter_arms:
  assumes "timers r = []" "row_selectMode r = Single" "row_session r = Some s"
      and "user_id s \<noteq> []" "\<not> hasPrefetched r"
  shows "timers (handleMouseEnter r)
           = [(Suc (next_handle r),
               \<lparr>deadline = now r + HOVER_DELAY, cb_message = message r, cb_session = s\<rparr>)]"
proof -
  have "timers (clear_hover_timeout (r\<lparr>isHovering := True\<rparr>)) = []"
    using assms(1) by (simp add: clear_hover_timeout_def clearTimeout_def split: option.split)
  with assms show ?thesis
    by (simp add: handleMouseEnter_def Let_def)
qed

lemma handleMouseLeave_fields [simp]:
  "prefetches (handleMouseLeave r) = prefetches r"
  "now (handleMouseLeave r) = now r"
  "message (handleMouseLeave r) = message r"
  "hasPrefetched (handleMouseLeave r) = hasPrefetched r"
  by (simp_all add: handleMouseLeave_def)

lemma idle_row_inv: "timers r = [] \<Longrightarrow> row_inv r"
  by (simp add: row_inv_def)

lemma prefetches_advance_idle: "timers r = [] \<Longrightarrow> prefetches (advance t r) = prefetches r"
  by (simp add: advance_idle)

lemma early_leave_no_prefetch:
  assumes idle: "timers r = []" and t: "now r \<le> t0" "t0 \<le> t1" "t1 < t0 + HOVER_DELAY"
  shows "prefetches (run_row [(t0, MouseEnter), (t1, MouseLeave)] r) = prefetches r"
    and "timers (run_row [(t0, MouseEnter), (t1, MouseLeave)] r) = []"
proof -
  let ?r0 = "advance t0 r"
  let ?r1 = "handleMouseEnter ?r0"
  have r0: "timers ?r0 = []" "now ?r0 = t0" "prefetches ?r0 = prefetches r"
    using idle t(1) by (simp_all add: advance_idle)
  have r1: "now ?r1 = t0" "prefetches ?r1 = prefetches r"
    using r0 by simp_all
  have quiet: "advance t1 ?r1 = ?r1\<lparr>now := max t1 (now ?r1)\<rparr>"
  proof -
    from handleMouseEnter_timer [OF r0(1)] consider
      "timers ?r1 = []" | h tm where "timers ?r1 = [(h, tm)]" "deadline tm = now ?r0 + HOVER_DELAY"
      by blast
    then show ?thesis
    proof cases
      case 1
      then show ?thesis by (rule advance_idle)
    next
      case 2
      from 2(2) r0(2) r1(1) t have "max t1 (now ?r1) < deadline tm" by simp
      with 2(1) show ?thesis by (rule advance_before_deadline)
    qed
  qed
  have inv: "row_inv (?r1\<lparr>now := max t1 (now ?r1)\<rparr>)"
    using row_inv_handleMouseEnter [OF idle_row_inv [OF r0(1)]]
    by (simp add: row_inv_def)
  have run: "run_row [(t0, MouseEnter), (t1, MouseLeave)] r
               = handleMouseLeave (?r1\<lparr>now := max t1 (now ?r1)\<rparr>)"
    by (simp add: quiet)
  show "prefetches (run_row [(t0, MouseEnter), (t1, MouseLeave)] r) = prefetches r"
    by (simp only: run handleMouseLeave_fields) (simp add: r0)
  from row_inv_handleMouseLeave [OF inv]
  show "timers (run_row [(t0, MouseEnter), (t1, MouseLeave)] r) = []"
    by (simp only: run) (simp add: row_inv_def handleMouseLeave_def)
qed

lemma sustained_hover_prefetches:
  assumes idle: "timers r = []" and t: "now r \<le> t0" "t0 + HOVER_DELAY \<le> t1"
      and c: "row_selectMode r = Single" "row_session r = Some s" "user_id s \<noteq> []"
             "\<not> hasPrefetched r"
  shows "prefetches (advance t1 (run_row [(t0, MouseEnter)] r))
           = prefetches r @ [(user_id s, selection_key (message r), connectionId s)]"
    and "hasPrefetched (advance t1 (run_row [(t0, MouseEnter)] r))"
    and "timers (advance t1 (run_row [(t0, MouseEnter)] r)) = []"
    and "message (advance t1 (run_row [(t0, MouseEnter)] r)) = message r"
proof -
  let ?r0 = "advance t0 r"
  let ?r1 = "handleMouseEnter ?r0"
  let ?tm = "\<lparr>deadline = t0 + HOVER_DELAY, cb_message = message r, cb_session = s\<rparr>"
  have r0: "?r0 = r\<lparr>now := t0\<rparr>"
    using idle t(1) by (simp add: advance_idle max_def)
  have armed: "timers ?r1 = [(Suc (next_handle r), ?tm)]"
    using handleMouseEnter_arms [of ?r0 s] idle c by (simp add: r0)
  have due: "deadline ?tm \<le> max t1 (now ?r1)"
    using t by simp
  have fire: "advance t1 ?r1 = hover_callback ?tm (?r1\<lparr>timers := [], now := max t1 (now ?r1)\<rparr>)"
    using armed due by (rule advance_at_deadline)
  have run: "run_row [(t0, MouseEnter)] r = ?r1" by simp
  show "prefetches (advance t1 (run_row [(t0, MouseEnter)] r))
           = prefetches r @ [(user_id s, selection_key (message r), connectionId s)]"
    by (simp only: run fire) (simp add: hover_callback_def selection_key_def r0)
  show "hasPrefetched (advance t1 (run_row [(t0, MouseEnter)] r))"
    by (simp only: run fire) (simp add: hover_callback_def)
  show "timers (advance t1 (run_row [(t0, MouseEnter)] r)) = []"
    by (simp only: run fire) simp
  show "message (advance t1 (run_row [(t0, MouseEnter)] r)) = message r"
    by (simp only: run fire) (simp add: r0)
qed

lemma prefetched_row_step:
  assumes "hasPrefetched r" "timers r = []" "keeps_id (id_m (message r)) e"
  shows "hasPrefetched (row_step e r) \<and> timers (row_step e r) = []
         \<and> id_m (message (row_step e r)) = id_m (message r)
         \<and> prefetches (row_step e r) = prefetches r"
proof (cases e)
  case MouseEnter
  with assms show ?thesis
    by (simp add: handleMouseEnter_def Let_def split: option.split)
next
  case MouseLeave
  with assms show ?thesis
    by (simp add: handleMouseLeave_def clear_hover_timeout_def clearTimeout_def
             split: option.split)
next
  case (Rerender m mode s)
  with assms show ?thesis
    by (simp add: rerender_def Let_def)
next
  case Unmount
  with assms show ?thesis
    by (simp add: unmount_def clear_hover_timeout_def clearTimeout_def split: option.split)
qed

lemma prefetched_no_more:
  "hasPrefetched r \<Longrightarrow> timers r = [] \<Longrightarrow>
   list_all (\<lambda>p. keeps_id (id_m (message r)) (snd p)) es \<Longrightarrow>
   prefetches (run_row es r) = prefetches r"
proof (induction es arbitrary: r)
  case Nil
  show ?case by simp
next
  case (Cons p es)
  obtain t e where p: "p = (t, e)" by (cases p)
  let ?r = "row_step e (advance t r)"
  have adv: "advance t r = r\<lparr>now := max t (now r)\<rparr>"
    using Cons.prems(2) by (rule advance_idle)
  from Cons.prems p have k: "keeps_id (id_m (message (advance t r))) e" by simp
  have s: "hasPrefetched ?r \<and> timers ?r = [] \<and> id_m (message ?r) = id_m (message (advance t r))
           \<and> prefetches ?r = prefetches (advance t r)"
    using Cons.prems(1,2) k by (intro prefetched_row_step) (simp_all add: adv)
  from Cons.prems(3) p s have rest: "list_all (\<lambda>p. keeps_id (id_m (message ?r)) (snd p)) es"
    by simp
  from Cons.IH [of ?r] s rest have "prefetches (run_row es ?r) = prefetches ?r" by blast
  with s p show ?case by (simp add: adv)
qed

text \<open>
  A hover that starts with no stale timer and the prefetch flag unset. Take any row
  reached from its mount, with the pointer outside it, and let the pointer enter at time
  \<open>t0\<close>. If it leaves at a time \<open>t1\<close> before 1000 ms have passed, no prefetch is
  issued, then or at any later time. If nothing happens to the row until a time \<open>t1\<close>
  at least 1000 ms later, and at the entry the mode was \<open>single\<close>, a user id was
  available and the flag was unset, then exactly one prefetch has been issued by \<open>t1\<close>,
  and no run of later events that keeps the row's \<open>id\<close> adds another. Timers are taken
  to fire when they are due.
\<close>

lemma fresh_hover_prefetches_once:
  assumes "row_reachable r" and "\<not> isHovering r" and "now r \<le> t0"
  shows "(t0 \<le> t1 \<and> t1 < t0 + 1000 \<longrightarrow>
            (\<forall>t. prefetches (advance t (run_row [(t0, MouseEnter), (t1, MouseLeave)] r))
                   = prefetches r))
         \<and> (t0 + 1000 \<le> t1 \<and> row_selectMode r = Single \<and> row_session r = Some s
              \<and> user_id s \<noteq> [] \<and> \<not> hasPrefetched r \<longrightarrow>
            prefetches (advance t1 (run_row [(t0, MouseEnter)] r))
              = prefetches r @ [(user_id s, selection_key (message r), connectionId s)]
            \<and> (list_all (\<lambda>p. keeps_id (id_m (message r)) (snd p)) es \<longrightarrow>
                 prefetches (run_row es (advance t1 (run_row [(t0, MouseEnter)] r)))
                   = prefetches r @ [(user_id s, selection_key (message r), connectionId s)]))"
proof (intro conjI impI allI)
  have idle: "timers r = []"
    using assms(1,2) by (rule row_reachable_idle)
  {
    fix t
    assume a: "t0 \<le> t1 \<and> t1 < t0 + 1000"
    then have t: "t0 \<le> t1" "t1 < t0 + HOVER_DELAY" by (simp_all add: HOVER_DELAY_def)
    from early_leave_no_prefetch [OF idle assms(3) t]
    show "prefetches (advance t (run_row [(t0, MouseEnter), (t1, MouseLeave)] r)) = prefetches r"
      by (simp add: prefetches_advance_idle)
  }
  assume b: "t0 + 1000 \<le> t1 \<and> row_selectMode r = Single \<and> row_session r = Some s
              \<and> user_id s \<noteq> [] \<and> \<not> hasPrefetched r"
  then have t: "t0 + HOVER_DELAY \<le> t1" by (simp add: HOVER_DELAY_def)
  from b have c: "row_selectMode r = Single" "row_session r = Some s" "user_id s \<noteq> []"
    "\<not> hasPrefetched r" by simp_all
  note fired = sustained_hover_prefetches [OF idle assms(3) t c]
  show "prefetches (advance t1 (run_row [(t0, MouseEnter)] r))
          = prefetches r @ [(user_id s, selection_key (message r), connectionId s)]"
    by (rule fired(1))
  assume "list_all (\<lambda>p. keeps_id (id_m (message r)) (snd p)) es"
  then have "list_all (\<lambda>p. keeps_id
      (id_m (message (advance t1 (run_row [(t0, MouseEnter)] r)))) (snd p)) es"
    by (simp only: fired(4))
  from prefetched_no_more [OF fired(2) fired(3) this]
  show "prefetches (run_row es (advance t1 (run_row [(t0, MouseEnter)] r)))
          = prefetches r @ [(user_id s, selection_key (message r), connectionId s)]"
    by (simp only: fired(1))
qed

lemma row_reachable_run_row: "row_reachable r \<Longrightarrow> row_reachable (run_row es r)"
proof (induction es arbitrary: r)
  case Nil
  then show ?case by simp
next
  case (Cons p es)
  obtain t e where "p = (t, e)" by (cases p)
  with Cons show ?case by (simp add: row_event)
qed

lemma stale_timer_row_eq:
  "stale_timer_row =
     \<lparr>message = replaced_item, row_selectMode = Single,
      row_session = Some \<lparr>user_id = ''u1'', connectionId = Str ''c1''\<rparr>,
      isHovering = False, hasPrefetched = True, hoverTimeoutRef = Some 1,
      timers = [], next_handle = 1, now = 1500,
      prefetches = [(''u1'', Str ''t1'', Str ''c1'')]\<rparr>"
  by (simp add: stale_timer_row_def demo_row_def mount_def demo_items_def replaced_item_def
        handleMouseEnter_def handleMouseLeave_def rerender_def advance_def hover_callback_def
        clear_hover_timeout_def clearTimeout_def HOVER_DELAY_def nullish_def Let_def)

text \<open>
  Claim C8 fails on the code when the row's message changes under the pointer. The
  timer set for \<open>m1\<close> is not cleared when the row is rendered with \<open>m5\<close>: it fires at
  1000 ms, prefetches the old key \<open>t1\<close> and sets the flag that the effect on
  \<open>message.id\<close> had just reset. The row, reached from its mount, then shows \<open>m5\<close> in
  \<open>single\<close> mode with a user and the pointer outside; a hover from 2000 ms to 9000 ms
  issues no prefetch, and the key \<open>t5\<close> of the row is never prefetched.
\<close>

theorem stale_timer_blocks_prefetch_of_new_id:
  "row_reachable stale_timer_row
   \<and> \<not> isHovering stale_timer_row
   \<and> row_selectMode stale_timer_row = Single
   \<and> row_session stale_timer_row = Some \<lparr>user_id = ''u1'', connectionId = Str ''c1''\<rparr>
   \<and> selection_key (message stale_timer_row) = Str ''t5''
   \<and> prefetches stale_timer_row = [(''u1'', Str ''t1'', Str ''c1'')]
   \<and> prefetches (advance 9000 (run_row [(2000, MouseEnter)] stale_timer_row))
       = [(''u1'', Str ''t1'', Str ''c1'')]"
proof -
  have r: "row_reachable stale_timer_row"
    unfolding stale_timer_row_def demo_row_def
    by (intro row_reachable_run_row row_mounted)
  have k: "selection_key (message stale_timer_row) = Str ''t5''"
    by (simp add: stale_timer_row_eq replaced_item_def selection_key_def nullish_def)
  have h: "prefetches (advance 9000 (run_row [(2000, MouseEnter)] stale_timer_row))
       = [(''u1'', Str ''t1'', Str ''c1'')]"
    by (simp add: stale_timer_row_eq handleMouseEnter_def advance_def Let_def)
  from r k h show ?thesis by (simp add: stale_timer_row_eq)
qed

end
